theory Spec2Isabelle
  imports Main "HOL-Library.Sublist" "HOL-Library.AList" "HOL-Library.Log_Nat"
begin

section \<open>Strings\<close>

text \<open>
  Python strings are modelled as \<open>string\<close>; type names, column names and property names
  are taken to be ASCII, so \<open>str.lower\<close> maps the letters \<open>A\<close> to \<open>Z\<close> to
  \<open>a\<close> to \<open>z\<close> and leaves every other character alone.
\<close>

definition lower_char :: "char \<Rightarrow> char" where
  "lower_char c =
     (let n = (of_char c :: nat) in if 65 \<le> n \<and> n \<le> 90 then char_of (n + 32) else c)"

definition lower :: "string \<Rightarrow> string" where
  "lower s = map lower_char s"

text \<open>The substring test \<open>pat in s\<close> of Python.\<close>

fun contains :: "string \<Rightarrow> string \<Rightarrow> bool" where
  "contains pat [] = (pat = [])"
| "contains pat (c # cs) = (prefix pat (c # cs) \<or> contains pat cs)"

section \<open>Tabular role classifier (scripts/build\_graph.py)\<close>

text \<open>
  \<open>detect_file_role\<close> returns a role and the columns that carry the identifiers; the
  pair of Python is one value of \<open>role\<close>. Each \<open>next(generator, None)\<close> is the first
  column that satisfies the test; a column that satisfies one of the tests is never the
  empty string, so the truth value of \<open>start_col\<close> is whether a column was found.
\<close>

datatype role = Edge string string | Node string | Unknown

definition is_start :: "string \<Rightarrow> bool" where
  "is_start c = (contains '':START_ID'' c \<or> contains ''source'' (lower c))"

definition is_end :: "string \<Rightarrow> bool" where
  "is_end c = (contains '':END_ID'' c \<or> contains ''target'' (lower c))"

definition detect_file_role :: "string list \<Rightarrow> role" where
  "detect_file_role cols =
     (let start_col = find is_start cols;
          end_col = find is_end cols;
          id_col = find (\<lambda>c. contains '':ID'' c \<or> (contains ''id'' (lower c) \<and> start_col = None)) cols
      in case (start_col, end_col) of
           (Some s, Some e) \<Rightarrow> Edge s e
         | _ \<Rightarrow> (case id_col of Some i \<Rightarrow> Node i | None \<Rightarrow> Unknown))"

fun is_edge :: "role \<Rightarrow> bool" where
  "is_edge (Edge s e) = True"
| "is_edge r = False"

fun is_node :: "role \<Rightarrow> bool" where
  "is_node (Node i) = True"
| "is_node r = False"

section \<open>Typed graph (the networkx DiGraph of scripts/build\_graph.py)\<close>

text \<open>
  The value of a CSV cell after pandas has parsed it, and of a graph attribute. \<open>VNaN\<close> is
  the \<open>nan\<close> that pandas stores for an empty cell. No attribute of a built graph is
  \<open>None\<close>. Type tags are compared with the equality of HOL, which agrees with \<open>==\<close>
  of Python on the strings that the graph builder stores as tags.
\<close>

datatype val = VStr string | VInt int | VFloat rat | VBool bool | VNaN

text \<open>
  A Python dict keeps its keys in insertion order: an association list with distinct keys.
  \<open>d[k] = v\<close> is \<open>AList.update k v d\<close> (an existing key keeps its place, a new key
  goes last), \<open>d.get(k)\<close> is \<open>map_of d k\<close>, and \<open>d.update(other)\<close> is
  \<open>dict_update\<close>.
\<close>

type_synonym 'v dict = "(string \<times> 'v) list"

definition dict_update :: "'v dict \<Rightarrow> 'v dict \<Rightarrow> 'v dict" where
  "dict_update d other = fold (\<lambda>(k, v) acc. AList.update k v acc) other d"

text \<open>
  \<open>nx.DiGraph\<close> keeps \<open>G._node\<close> (node to attributes) and \<open>G._succ\<close> (node to
  successor to edge attributes), two dicts with the same keys in the same order. Here one
  ordered dict maps a node to both. An edge is keyed by its pair (source, target): the
  graph is a \<open>DiGraph\<close>, not a \<open>MultiDiGraph\<close>.
\<close>

record node_entry =
  attrs :: "val dict"
  nbrs :: "val dict dict"

type_synonym graph = "node_entry dict"

definition empty_entry :: node_entry where
  "empty_entry = \<lparr>attrs = [], nbrs = []\<rparr>"

definition has_node :: "graph \<Rightarrow> string \<Rightarrow> bool" where
  "has_node G n = (map_of G n \<noteq> None)"

definition number_of_nodes :: "graph \<Rightarrow> nat" where
  "number_of_nodes G = length G"

text \<open>\<open>G.add_node(n, **attr)\<close>: a new node gets the attributes, an old one is updated.\<close>

definition add_node :: "string \<Rightarrow> val dict \<Rightarrow> graph \<Rightarrow> graph" where
  "add_node n attr G =
     (let e = (case map_of G n of None \<Rightarrow> empty_entry | Some e \<Rightarrow> e)
      in AList.update n (e\<lparr>attrs := dict_update (attrs e) attr\<rparr>) G)"

text \<open>
  \<open>G.add_edge(u, v, **attr)\<close>: missing endpoints are added with no attributes, then the
  attributes of the edge (u, v), empty if the edge is new, are updated with \<open>attr\<close>.
\<close>

definition ensure_node :: "string \<Rightarrow> graph \<Rightarrow> graph" where
  "ensure_node n G = (if has_node G n then G else AList.update n empty_entry G)"

definition add_edge :: "string \<Rightarrow> string \<Rightarrow> val dict \<Rightarrow> graph \<Rightarrow> graph" where
  "add_edge u v attr G =
     (let G' = ensure_node v (ensure_node u G);
          e = (case map_of G' u of None \<Rightarrow> empty_entry | Some e \<Rightarrow> e);
          datadict = (case map_of (nbrs e) v of None \<Rightarrow> [] | Some d \<Rightarrow> d)
      in AList.update u (e\<lparr>nbrs := AList.update v (dict_update datadict attr) (nbrs e)\<rparr>) G')"




section \<open>Graph builder (scripts/build\_graph.py)\<close>

text \<open>
  A data frame as \<open>pd.read_csv\<close> returns it: the header and the rows, each row one cell
  per column. A CSV file of the folder is its type name, the value of
  \<open>clean_type_name\<close> on its path, and its frame, \<open>None\<close> when \<open>pd.read_csv\<close>
  raises. The folder is \<open>None\<close> when it is not a directory.
\<close>

record dataframe =
  columns :: "string list"
  rows :: "val list list"

record csv_file =
  type_name :: string
  frame :: "dataframe option"

datatype error = TypeError | KeyError

text \<open>
  \<open>df[c] = df[c].astype(str)\<close>; the conversion of a cell to a string is the parameter
  \<open>to_str\<close>. \<open>row.to_dict()\<close> pairs the header with the cells of a row.
\<close>

definition astype_str :: "(val \<Rightarrow> string) \<Rightarrow> string \<Rightarrow> dataframe \<Rightarrow> dataframe" where
  "astype_str to_str c df =
     df\<lparr>rows := map (\<lambda>r. map (\<lambda>(k, x). if k = c then VStr (to_str x) else x) (zip (columns df) r))
                   (rows df)\<rparr>"

definition to_dict :: "dataframe \<Rightarrow> val list \<Rightarrow> val dict" where
  "to_dict df r = dict_update [] (zip (columns df) r)"

definition iterrows :: "dataframe \<Rightarrow> val dict list" where
  "iterrows df = map (to_dict df) (rows df)"

text \<open>\<open>row[c]\<close> on a column that was converted to strings.\<close>

definition cell :: "val dict \<Rightarrow> string \<Rightarrow> error + string" where
  "cell row c = (case map_of row c of Some (VStr s) \<Rightarrow> Inr s | _ \<Rightarrow> Inl KeyError)"

text \<open>
  A call \<open>f(..., name=x, **row.to_dict())\<close> raises \<open>TypeError\<close> before \<open>f\<close> runs
  when a column of the row has the name of a keyword or of a positional parameter of
  \<open>f\<close>: \<open>add_node(self, node_for_adding, **attr)\<close> and
  \<open>add_edge(self, u_of_edge, v_of_edge, **attr)\<close>.
\<close>

definition kw_clash :: "string list \<Rightarrow> val dict \<Rightarrow> bool" where
  "kw_clash names row = (\<exists>k\<in>set names. map_of row k \<noteq> None)"

text \<open>
  One iteration of the node loop:
  \<open>G.add_node(row[id_col], node_type=type_name, **row.to_dict())\<close>.
\<close>

definition node_row :: "string \<Rightarrow> string \<Rightarrow> val dict \<Rightarrow> graph \<Rightarrow> error + graph" where
  "node_row tn id_col row G =
     (case cell row id_col of
        Inl e \<Rightarrow> Inl e
      | Inr n \<Rightarrow>
          if kw_clash [''self'', ''node_for_adding'', ''node_type''] row then Inl TypeError
          else Inr (add_node n ((''node_type'', VStr tn) # row) G))"

text \<open>
  A loop inside \<open>try\<close>: the first row that raises ends the loop, and the graph keeps what
  the rows before it did. The handler logs the error and the next file is read.
\<close>

fun node_rows :: "string \<Rightarrow> string \<Rightarrow> val dict list \<Rightarrow> graph \<Rightarrow> graph \<times> error option" where
  "node_rows tn id_col [] G = (G, None)"
| "node_rows tn id_col (row # rs) G =
     (case node_row tn id_col row G of
        Inl e \<Rightarrow> (G, Some e)
      | Inr G' \<Rightarrow> node_rows tn id_col rs G')"

definition node_file :: "(val \<Rightarrow> string) \<Rightarrow> csv_file \<Rightarrow> graph \<Rightarrow> graph" where
  "node_file to_str f G =
     (case frame f of
        None \<Rightarrow> G
      | Some df \<Rightarrow>
          (case detect_file_role (columns df) of
             Node id_col \<Rightarrow>
               fst (node_rows (type_name f) id_col (iterrows (astype_str to_str id_col df)) G)
           | _ \<Rightarrow> G))"

text \<open>
  One iteration of the edge loop. The placeholders are added before the call of
  \<open>add_edge\<close>, so they stay when the call raises.
\<close>

definition inferred :: "string \<Rightarrow> graph \<Rightarrow> graph" where
  "inferred n G = (if has_node G n then G else add_node n [(''node_type'', VStr ''Inferred'')] G)"

definition edge_row :: "string \<Rightarrow> string \<Rightarrow> string \<Rightarrow> val dict \<Rightarrow> graph \<Rightarrow> graph \<times> error option" where
  "edge_row tn start_col end_col row G =
     (case cell row start_col of
        Inl e \<Rightarrow> (G, Some e)
      | Inr u \<Rightarrow>
         (case cell row end_col of
            Inl e \<Rightarrow> (G, Some e)
          | Inr v \<Rightarrow>
              (let G' = inferred v (inferred u G)
               in if kw_clash [''self'', ''u_of_edge'', ''v_of_edge'', ''type''] row
                  then (G', Some TypeError)
                  else (add_edge u v ((''type'', VStr tn) # row) G', None))))"

fun edge_rows :: "string \<Rightarrow> string \<Rightarrow> string \<Rightarrow> val dict list \<Rightarrow> graph \<Rightarrow> graph \<times> error option" where
  "edge_rows tn sc ec [] G = (G, None)"
| "edge_rows tn sc ec (row # rs) G =
     (case edge_row tn sc ec row G of
        (G', Some e) \<Rightarrow> (G', Some e)
      | (G', None) \<Rightarrow> edge_rows tn sc ec rs G')"

definition edge_frame :: "(val \<Rightarrow> string) \<Rightarrow> string \<Rightarrow> string \<Rightarrow> dataframe \<Rightarrow> val dict list" where
  "edge_frame to_str sc ec df = iterrows (astype_str to_str ec (astype_str to_str sc df))"

definition edge_file :: "(val \<Rightarrow> string) \<Rightarrow> csv_file \<Rightarrow> graph \<Rightarrow> graph" where
  "edge_file to_str f G =
     (case frame f of
        None \<Rightarrow> G
      | Some df \<Rightarrow>
          (case detect_file_role (columns df) of
             Edge sc ec \<Rightarrow> fst (edge_rows (type_name f) sc ec (edge_frame to_str sc ec df) G)
           | _ \<Rightarrow> G))"

definition pass1 :: "(val \<Rightarrow> string) \<Rightarrow> csv_file list \<Rightarrow> graph \<Rightarrow> graph" where
  "pass1 to_str files G = fold (node_file to_str) files G"

definition pass2 :: "(val \<Rightarrow> string) \<Rightarrow> csv_file list \<Rightarrow> graph \<Rightarrow> graph" where
  "pass2 to_str files G = fold (edge_file to_str) files G"

definition build_graph :: "(val \<Rightarrow> string) \<Rightarrow> csv_file list option \<Rightarrow> graph" where
  "build_graph to_str folder =
     (case folder of
        None \<Rightarrow> []
      | Some files \<Rightarrow> if files = [] then [] else pass2 to_str files (pass1 to_str files []))"

text \<open>
  Observations on a graph: \<open>G.nodes[n]\<close> and \<open>G.get_edge_data(u, v)\<close>, \<open>None\<close> when
  the node or the edge is absent.
\<close>

definition node_attrs :: "graph \<Rightarrow> string \<Rightarrow> val dict option" where
  "node_attrs G n = map_option attrs (map_of G n)"





section \<open>Python floats\<close>

text \<open>
  A Python float is an IEEE binary64 number. A finite float is modelled by the rational
  number it denotes, and an operation by the exact operation followed by \<open>fl\<close>, rounding
  to the nearest number with a 53-bit significand, ties to even. Overflow and subnormal
  numbers are outside the model: every quotient, product and literal below is 0 or lies
  between \<open>2 powr -1000\<close> and \<open>2 powr 1000\<close> in absolute value.

  \<open>expo x\<close> is the exponent \<open>e\<close> with \<open>2 powr e \<le> x < 2 powr (e + 1)\<close>, for
  positive \<open>x\<close>.
\<close>

definition pow2 :: "int \<Rightarrow> rat" where
  "pow2 k = (if 0 \<le> k then 2 ^ nat k else 1 / 2 ^ nat (- k))"

definition round_half_even :: "rat \<Rightarrow> int" where
  "round_half_even x =
     (let f = \<lfloor>x\<rfloor>; d = x - of_int f
      in if d < 1 / 2 then f else if 1 / 2 < d then f + 1 else if even f then f else f + 1)"

definition expo :: "rat \<Rightarrow> int" where
  "expo x =
     (let (a, b) = quotient_of x; d = bitlen a - bitlen b
      in if x < pow2 d then d - 1 else d)"

definition fl :: "rat \<Rightarrow> rat" where
  "fl x =
     (if x = 0 then 0
      else let e = expo \<bar>x\<bar>
           in sgn x * of_int (round_half_even (\<bar>x\<bar> * pow2 (52 - e))) * pow2 (e - 52))"

text \<open>
  \<open>a / b\<close> on two ints (true division, correctly rounded), \<open>x * y\<close> on floats, a decimal
  literal, and \<open>round(x, 2)\<close>, which rounds the exact value of \<open>x\<close> to two decimals,
  ties to even, and returns the float nearest to that decimal.
\<close>

definition int_truediv :: "int \<Rightarrow> int \<Rightarrow> rat" where
  "int_truediv a b = fl (of_int a / of_int b)"

definition float_mul :: "rat \<Rightarrow> rat \<Rightarrow> rat" where
  "float_mul x y = fl (x * y)"

definition float_div :: "rat \<Rightarrow> rat \<Rightarrow> rat" where
  "float_div x y = fl (x / y)"

definition float_lit :: "rat \<Rightarrow> rat" where
  "float_lit q = fl q"

definition round2 :: "rat \<Rightarrow> rat" where
  "round2 x = fl (of_int (round_half_even (x * 100)) / 100)"

section \<open>Schema and deterministic fallback (app.py)\<close>

text \<open>
  The JSON objects of a schema. A key that is absent from an object, or whose value is
  false in a condition (\<open>None\<close>, the empty string, the empty list), is the empty string
  or the empty list of the record: the code reads these keys only through \<open>get\<close>, with
  \<open>or\<close> and with \<open>if\<close>, which do not tell the cases apart.
\<close>

record property =
  pname :: string
  ptype :: string
  mandatory :: bool

record schema_type =
  tname :: string
  ttype :: string
  labels :: "string list"
  properties :: "property list"

record schema =
  node_types :: "schema_type list"
  edge_types :: "schema_type list"

















section \<open>String similarity (difflib.SequenceMatcher of the Python standard library)\<close>

text \<open>
  \<open>similar\<close> calls \<open>SequenceMatcher(None, a, b).ratio()\<close>. The matcher is modelled from
  the standard library, with no junk predicate and with the automatic junk heuristic on:
  \<open>b2j\<close> maps an element to its positions in \<open>b\<close>, and has no entry for an element that
  fills more than one percent (plus one) of a \<open>b\<close> of 200 elements or more.
\<close>

definition b2j :: "'a list \<Rightarrow> 'a \<Rightarrow> nat list" where
  "b2j b elt =
     (let idxs = filter (\<lambda>j. b ! j = elt) [0..<length b]
      in if 200 \<le> length b \<and> length b div 100 + 1 < length idxs then [] else idxs)"

text \<open>
  \<open>find_longest_match\<close>. The state of the loops is \<open>j2len\<close> and the best block
  \<open>(besti, bestj, bestsize)\<close>. The inner loop skips \<open>j < blo\<close> and breaks at
  \<open>j \<ge> bhi\<close>; the positions are increasing, so the break is \<open>takeWhile\<close>.
  \<open>j2len.get(j - 1, 0)\<close> is 0 at \<open>j = 0\<close>, where the key is \<open>-1\<close>.
\<close>

type_synonym block = "nat \<times> nat \<times> nat"

definition j2len_get :: "(nat \<times> nat) list \<Rightarrow> nat \<Rightarrow> nat" where
  "j2len_get j2len j =
     (if j = 0 then 0 else case map_of j2len (j - 1) of None \<Rightarrow> 0 | Some l \<Rightarrow> l)"

definition inner_step ::
  "(nat \<times> nat) list \<Rightarrow> nat \<Rightarrow> nat \<Rightarrow> nat \<Rightarrow> (nat \<times> nat) list \<times> block \<Rightarrow> (nat \<times> nat) list \<times> block" where
  "inner_step j2len blo i j st =
     (case st of (newj2len, (besti, bestj, bestsize)) \<Rightarrow>
        if j < blo then st
        else let k = j2len_get j2len j + 1
             in ((j, k) # newj2len,
                 if bestsize < k then (i + 1 - k, j + 1 - k, k) else (besti, bestj, bestsize)))"

definition outer_step ::
  "'a list \<Rightarrow> 'a list \<Rightarrow> nat \<Rightarrow> nat \<Rightarrow> nat \<Rightarrow> (nat \<times> nat) list \<times> block \<Rightarrow> (nat \<times> nat) list \<times> block" where
  "outer_step a b blo bhi i st =
     (case st of (j2len, best) \<Rightarrow>
        fold (inner_step j2len blo i) (takeWhile (\<lambda>j. j < bhi) (b2j b (a ! i))) ([], best))"

text \<open>
  The two loops that extend the block by elements that are not junk. No element is junk
  here, so the two further loops, which extend by junk, never run.
\<close>

function extend_left :: "'a list \<Rightarrow> 'a list \<Rightarrow> nat \<Rightarrow> nat \<Rightarrow> block \<Rightarrow> block" where
  "extend_left a b alo blo (i, j, k) =
     (if alo < i \<and> blo < j \<and> a ! (i - 1) = b ! (j - 1)
      then extend_left a b alo blo (i - 1, j - 1, k + 1)
      else (i, j, k))"
  by pat_completeness auto
termination
  by (relation "measure (\<lambda>(a, b, alo, blo, i, j, k). i)") auto

function extend_right :: "'a list \<Rightarrow> 'a list \<Rightarrow> nat \<Rightarrow> nat \<Rightarrow> block \<Rightarrow> block" where
  "extend_right a b ahi bhi (i, j, k) =
     (if i + k < ahi \<and> j + k < bhi \<and> a ! (i + k) = b ! (j + k)
      then extend_right a b ahi bhi (i, j, k + 1)
      else (i, j, k))"
  by pat_completeness auto
termination
  by (relation "measure (\<lambda>(a, b, ahi, bhi, i, j, k). ahi - (i + k))") auto

definition find_longest_match :: "'a list \<Rightarrow> 'a list \<Rightarrow> nat \<Rightarrow> nat \<Rightarrow> nat \<Rightarrow> nat \<Rightarrow> block" where
  "find_longest_match a b alo ahi blo bhi =
     extend_right a b ahi bhi
       (extend_left a b alo blo
          (snd (fold (outer_step a b blo bhi) [alo..<ahi] ([], (alo, blo, 0)))))"

declare extend_left.simps [simp del] extend_right.simps [simp del]

text \<open>
  \<open>get_matching_blocks\<close> takes the longest block of a region and queues the regions to
  its left and to its right. \<open>ratio\<close> needs only the sum of the sizes of the blocks, which
  neither the order of the queue nor the merging of adjacent blocks changes.
\<close>

function matches_in :: "'a list \<Rightarrow> 'a list \<Rightarrow> nat \<times> nat \<times> nat \<times> nat \<Rightarrow> nat" where
  "matches_in a b (alo, ahi, blo, bhi) =
     (case find_longest_match a b alo ahi blo bhi of
        (i, j, k) \<Rightarrow>
          if k = 0 then 0
          else k + (if alo < i \<and> blo < j then matches_in a b (alo, i, blo, j) else 0)
                 + (if i + k < ahi \<and> j + k < bhi then matches_in a b (i + k, ahi, j + k, bhi) else 0))"
  by pat_completeness auto

text \<open>
  \<open>_calculate_ratio\<close>: \<open>2.0 * matches / length\<close>, or 1.0 for two empty sequences. The
  product is exact, the quotient is rounded.
\<close>

definition ratio :: "'a list \<Rightarrow> 'a list \<Rightarrow> rat" where
  "ratio a b =
     (let matches = matches_in a b (0, length a, 0, length b);
          len = length a + length b
      in if len \<noteq> 0 then float_div (2 * of_nat matches) (of_nat len) else 1)"

text \<open>The invariant of the outer loop of \<open>find_longest_match\<close> after the rows below \<open>hi\<close>.\<close>

definition dp_inv :: "nat \<Rightarrow> nat \<Rightarrow> (nat \<times> nat) list \<times> block \<Rightarrow> bool" where
  "dp_inv alo hi st =
     (case st of (j2len, (bi, bj, bk)) \<Rightarrow>
        (\<forall>(j, l)\<in>set j2len. l \<le> hi - alo) \<and> alo \<le> bi \<and> bi + bk \<le> hi)"

section \<open>Schema comparator (app.py, scripts/compare\_schemas.py)\<close>

definition similar :: "string \<Rightarrow> string \<Rightarrow> rat" where
  "similar a b = (if a = [] \<or> b = [] then 0 else ratio (lower a) (lower b))"

text \<open>
  The loop of \<open>find_best_match\<close> with its state \<open>(best_score, best_match)\<close>; 0.8 is the
  float literal.
\<close>

definition best_step :: "string \<Rightarrow> string \<Rightarrow> rat \<times> string option \<Rightarrow> rat \<times> string option" where
  "best_step name target st =
     (case st of (best_score, best_match) \<Rightarrow>
        let score = similar name target
        in if float_lit (8 / 10) < score
           then (if best_score < score then (score, Some target) else (best_score, best_match))
           else (best_score, best_match))"

definition find_best_match :: "string \<Rightarrow> string list \<Rightarrow> string option" where
  "find_best_match name target_list = snd (fold (best_step name) target_list (0, None))"


text \<open>
  \<open>compare_properties\<close>: the names of the two property lists as sets; a property whose
  name is missing or empty is left out.
\<close>

definition prop_names :: "property list \<Rightarrow> string set" where
  "prop_names props = set (filter (\<lambda>n. n \<noteq> []) (map pname props))"

definition compare_properties :: "property list \<Rightarrow> property list \<Rightarrow> string set \<times> string set \<times> string set" where
  "compare_properties gt_props inf_props =
     (let gt_names = prop_names gt_props; inf_names = prop_names inf_props
      in (gt_names \<inter> inf_names, gt_names - inf_names, inf_names - gt_names))"

text \<open>
  The canonical name of a node type (\<open>name\<close>, else the first label, else empty) and of an
  edge type (\<open>type\<close>, else \<open>name\<close>), and the dict comprehension that indexes a list of
  types by it: a later type with the same name replaces the earlier one.
\<close>

definition node_key :: "schema_type \<Rightarrow> string" where
  "node_key n = (if tname n \<noteq> [] then tname n else case labels n of [] \<Rightarrow> [] | l # ls \<Rightarrow> l)"

definition edge_key :: "schema_type \<Rightarrow> string" where
  "edge_key e = (if ttype e \<noteq> [] then ttype e else tname e)"

definition index_by :: "(schema_type \<Rightarrow> string) \<Rightarrow> schema_type list \<Rightarrow> schema_type dict" where
  "index_by key ts = fold (\<lambda>t d. AList.update (key t) t d) ts []"

text \<open>
  The matching loop: a reference name is matched when \<open>find_best_match\<close> returns a name
  that is not empty.
\<close>

definition match_names :: "schema_type dict \<Rightarrow> schema_type dict \<Rightarrow> (string \<times> string) list" where
  "match_names gt inf' =
     List.map_filter
       (\<lambda>gt_name. case find_best_match gt_name (map fst inf') of
                     Some m \<Rightarrow> if m \<noteq> [] then Some (gt_name, m) else None
                   | None \<Rightarrow> None)
       (map fst gt)"

text \<open>
  \<open>d[k].get('properties', [])\<close>; the keys that are looked up come from the dicts
  themselves.
\<close>

definition props_of :: "schema_type dict \<Rightarrow> string \<Rightarrow> property list" where
  "props_of d k = (case map_of d k of None \<Rightarrow> [] | Some t \<Rightarrow> properties t)"

record property_detail =
  node :: string
  correct :: "string set"
  missing :: "string set"
  extra :: "string set"

text \<open>
  The property loop with its state \<open>(total_props, total_matches, property_details)\<close>.
\<close>

definition property_step ::
  "schema_type dict \<Rightarrow> schema_type dict \<Rightarrow> string \<times> string \<Rightarrow>
   nat \<times> nat \<times> property_detail list \<Rightarrow> nat \<times> nat \<times> property_detail list" where
  "property_step gt_nodes inf_nodes m st =
     (case (m, st) of ((gt_name, inf_name), (total_props, total_matches, details)) \<Rightarrow>
        (case compare_properties (props_of gt_nodes gt_name) (props_of inf_nodes inf_name) of
           (tp, fn, fp) \<Rightarrow>
             (total_props + length (props_of gt_nodes gt_name),
              total_matches + card tp,
              details @ [\<lparr>node = gt_name, correct = tp, missing = fn, extra = fp\<rparr>])))"

record comparison =
  accuracy :: rat
  node_matches :: "(string \<times> string) list"
  edge_matches :: "(string \<times> string) list"
  property_details :: "property_detail list"
  total_properties :: nat
  matched_properties :: nat

text \<open>
  \<open>compare_schemas\<close> of app.py, from the two parsed schemas to the fields of the JSON
  answer.
\<close>

definition compare_schemas :: "schema \<Rightarrow> schema \<Rightarrow> comparison" where
  "compare_schemas gt inf' =
     (let gt_nodes = index_by node_key (node_types gt);
          inf_nodes = index_by node_key (node_types inf');
          matches = match_names gt_nodes inf_nodes
      in case fold (property_step gt_nodes inf_nodes) matches (0, 0, []) of
           (total_props, total_matches, details) \<Rightarrow>
             (let gt_edges = index_by edge_key (edge_types gt);
                  inf_edges = index_by edge_key (edge_types inf');
                  acc = (if 0 < total_props
                         then float_mul (int_truediv (int total_matches) (int total_props)) 100
                         else 0)
              in \<lparr>accuracy = round2 acc,
                  node_matches = matches,
                  edge_matches = match_names gt_edges inf_edges,
                  property_details = details,
                  total_properties = total_props,
                  matched_properties = total_matches\<rparr>))"

text \<open>
  The last lines of \<open>main\<close> of scripts/compare\_schemas.py: the score is printed with two
  decimals when there is a reference property, and nothing is printed otherwise. The
  value is the printed decimal number.
\<close>

definition final_property_score :: "nat \<Rightarrow> nat \<Rightarrow> rat option" where
  "final_property_score total_matches total_props =
     (if 0 < total_props
      then Some (of_int (round_half_even
                  (float_mul (int_truediv (int total_matches) (int total_props)) 100 * 100)) / 100)
      else None)"

section \<open>Example folders\<close>

text \<open>
  A string conversion for the examples, whose identifier cells are strings already, and
  four CSV files: a node file with two neurons, two edge files of different types that
  both hold the row from 1 to 2, and an edge file with a column named \<open>type\<close>.
\<close>

definition ex_str :: "val \<Rightarrow> string" where
  "ex_str x = (case x of VStr s \<Rightarrow> s | _ \<Rightarrow> ''nan'')"

definition ex_neurons :: csv_file where
  "ex_neurons = \<lparr>type_name = ''Neuron'', frame = Some \<lparr>columns = ['':ID'', ''name''],
     rows = [[VStr ''1'', VStr ''a''], [VStr ''2'', VNaN]]\<rparr>\<rparr>"

definition ex_edges_A :: csv_file where
  "ex_edges_A = \<lparr>type_name = ''A'', frame = Some \<lparr>columns = ['':START_ID'', '':END_ID'', ''w''],
     rows = [[VStr ''1'', VStr ''2'', VInt 3], [VStr ''1'', VStr ''9'', VInt 4]]\<rparr>\<rparr>"





text \<open>
  A reference schema and a candidate schema with one node type each: \<open>Neuron\<close> with the
  properties a, b, c, and \<open>Neuron\<close> with the properties a, b, d.
\<close>

definition ex_prop :: "string \<Rightarrow> property" where
  "ex_prop n = \<lparr>pname = n, ptype = ''String'', mandatory = True\<rparr>"

definition ex_reference :: schema where
  "ex_reference = \<lparr>node_types = [\<lparr>tname = ''Neuron'', ttype = [], labels = [''Neuron''],
       properties = [ex_prop ''a'', ex_prop ''b'', ex_prop ''c'']\<rparr>], edge_types = []\<rparr>"

definition ex_candidate :: schema where
  "ex_candidate = \<lparr>node_types = [\<lparr>tname = ''Neuron'', ttype = [], labels = [''Neuron''],
       properties = [ex_prop ''a'', ex_prop ''b'', ex_prop ''d'']\<rparr>], edge_types = []\<rparr>"

lemma find_is_Some: "(find P xs \<noteq> None) = (\<exists>x\<in>set xs. P x)"
  by (induction xs) auto

section \<open>Role classification\<close>

text \<open>
  C6 (as amended). The classifier returns an edge role exactly when some column carries a
  start marker and some column carries an end marker. Otherwise it returns a node role
  exactly when some column contains \<open>:ID\<close> (case-sensitively), or no column carries a
  start marker and some column contains \<open>id\<close> in any letter case. Otherwise it returns
  unknown. The three headers of the specification classify as edge, node and unknown.
\<close>
theorem detect_file_role_classes:
  "(is_edge (detect_file_role cols) \<longleftrightarrow>
      (\<exists>c\<in>set cols. is_start c) \<and> (\<exists>c\<in>set cols. is_end c))
   \<and> (is_node (detect_file_role cols) \<longleftrightarrow>
      \<not> ((\<exists>c\<in>set cols. is_start c) \<and> (\<exists>c\<in>set cols. is_end c)) \<and>
      ((\<exists>c\<in>set cols. contains '':ID'' c) \<or>
       (\<not> (\<exists>c\<in>set cols. is_start c) \<and> (\<exists>c\<in>set cols. contains ''id'' (lower c)))))
   \<and> (detect_file_role cols = Unknown \<longleftrightarrow>
      \<not> ((\<exists>c\<in>set cols. is_start c) \<and> (\<exists>c\<in>set cols. is_end c)) \<and>
      \<not> ((\<exists>c\<in>set cols. contains '':ID'' c) \<or>
       (\<not> (\<exists>c\<in>set cols. is_start c) \<and> (\<exists>c\<in>set cols. contains ''id'' (lower c)))))
   \<and> is_edge (detect_file_role ['':START_ID(X)'', '':END_ID(Y)'', ''weight''])
   \<and> is_node (detect_file_role ['':ID(X)'', ''name''])
   \<and> detect_file_role [''foo'', ''bar''] = Unknown"
proof -
  let ?s = "find is_start cols" and ?e = "find is_end cols"
  let ?i = "find (\<lambda>c. contains '':ID'' c \<or> (contains ''id'' (lower c) \<and> find is_start cols = None)) cols"
  have s: "(?s \<noteq> None) = (\<exists>c\<in>set cols. is_start c)" by (rule find_is_Some)
  have e: "(?e \<noteq> None) = (\<exists>c\<in>set cols. is_end c)" by (rule find_is_Some)
  have i: "(?i \<noteq> None) = ((\<exists>c\<in>set cols. contains '':ID'' c) \<or>
       (\<not> (\<exists>c\<in>set cols. is_start c) \<and> (\<exists>c\<in>set cols. contains ''id'' (lower c))))"
    unfolding find_is_Some using s by auto
  have 1: "is_edge (detect_file_role cols) \<longleftrightarrow> ?s \<noteq> None \<and> ?e \<noteq> None"
    by (auto simp: detect_file_role_def Let_def split: option.splits)
  have 2: "is_node (detect_file_role cols) \<longleftrightarrow> \<not> (?s \<noteq> None \<and> ?e \<noteq> None) \<and> ?i \<noteq> None"
    by (auto simp: detect_file_role_def Let_def split: option.splits)
  have 3: "detect_file_role cols = Unknown \<longleftrightarrow> \<not> (?s \<noteq> None \<and> ?e \<noteq> None) \<and> \<not> ?i \<noteq> None"
    by (auto simp: detect_file_role_def Let_def split: option.splits)
  have 4: "is_edge (detect_file_role ['':START_ID(X)'', '':END_ID(Y)'', ''weight''])" by code_simp
  have 5: "is_node (detect_file_role ['':ID(X)'', ''name''])" by code_simp
  have 6: "detect_file_role [''foo'', ''bar''] = Unknown" by code_simp
  show ?thesis using 1 2 3 4 5 6 unfolding s e i by blast
qed

theorem detect_file_role_classes_witness:
  "is_node (detect_file_role [''name'', ''Body_Id''])
   \<and> \<not> is_start ''name'' \<and> \<not> is_start ''Body_Id'' \<and> contains ''id'' (lower ''Body_Id'')"
proof -
  have a: "\<not> is_start ''name''" "\<not> is_start ''Body_Id''" "contains ''id'' (lower ''Body_Id'')"
    by code_simp+
  from a show ?thesis
    using detect_file_role_classes [of "[''name'', ''Body_Id'']"] by simp
qed

theorem detect_file_role_counterexample:
  "\<not> is_end '':START_ID(X)'' \<and> \<not> is_end ''name''
   \<and> contains ''id'' (lower '':START_ID(X)'')
   \<and> detect_file_role ['':START_ID(X)'', ''name''] = Unknown"
  by code_simp

section \<open>Graph operations\<close>

lemma map_of_add_node:
  "map_of (add_node n a G) =
     (map_of G)(n \<mapsto> (case map_of G n of None \<Rightarrow> empty_entry | Some e \<Rightarrow> e)
                       \<lparr>attrs := dict_update (attrs (case map_of G n of None \<Rightarrow> empty_entry | Some e \<Rightarrow> e)) a\<rparr>)"
  by (simp add: add_node_def Let_def update_conv')

lemma has_node_add_node: "has_node (add_node n a G) m \<longleftrightarrow> m = n \<or> has_node G m"
  by (simp add: has_node_def map_of_add_node)

lemma node_attrs_add_node_other: "m \<noteq> n \<Longrightarrow> node_attrs (add_node n a G) m = node_attrs G m"
  by (simp add: node_attrs_def map_of_add_node)

lemma nbrs_add_node:
  "map_option nbrs (map_of (add_node n a G) m) =
     (if m = n \<and> \<not> has_node G n then Some [] else map_option nbrs (map_of G m))"
  by (auto simp: map_of_add_node has_node_def empty_entry_def split: option.splits)


lemma map_of_ensure_node:
  "map_of (ensure_node n G) = (if has_node G n then map_of G else (map_of G)(n \<mapsto> empty_entry))"
  by (simp add: ensure_node_def update_conv')

lemma has_node_ensure_node: "has_node (ensure_node n G) m \<longleftrightarrow> m = n \<or> has_node G m"
  by (auto simp: has_node_def map_of_ensure_node)

lemma ensure_node_id: "has_node G n \<Longrightarrow> ensure_node n G = G"
  by (simp add: ensure_node_def)

lemma has_node_inferred: "has_node (inferred n G) m \<longleftrightarrow> m = n \<or> has_node G m"
  by (auto simp: inferred_def has_node_add_node)

lemma node_attrs_inferred_old: "has_node G m \<Longrightarrow> node_attrs (inferred n G) m = node_attrs G m"
  by (cases "m = n") (auto simp: inferred_def node_attrs_add_node_other)



lemma map_of_add_edge:
  assumes "has_node G u" "has_node G v"
  shows "map_of (add_edge u v a G) =
     (map_of G)(u \<mapsto> (the (map_of G u))
        \<lparr>nbrs := AList.update v (dict_update (case map_of (nbrs (the (map_of G u))) v of
                                                None \<Rightarrow> [] | Some d \<Rightarrow> d) a)
                    (nbrs (the (map_of G u)))\<rparr>)"
  using assms by (auto simp: add_edge_def Let_def ensure_node_id update_conv' has_node_def)

lemma has_node_add_edge: "has_node (add_edge u v a G) m \<longleftrightarrow> m = u \<or> m = v \<or> has_node G m"
  by (auto simp: add_edge_def Let_def has_node_def update_conv' map_of_ensure_node
      split: if_splits)

lemma node_attrs_add_edge:
  assumes "has_node G u" "has_node G v"
  shows "node_attrs (add_edge u v a G) m = node_attrs G m"
  using assms by (auto simp: node_attrs_def map_of_add_edge has_node_def)








section \<open>Edge processing\<close>


lemma distinct_dict_update: "distinct (map fst d) \<Longrightarrow> distinct (map fst (dict_update d other))"
proof (induction other arbitrary: d)
  case Nil
  then show ?case by (simp add: dict_update_def)
next
  case (Cons p ps)
  obtain k v where p: "p = (k, v)" by (cases p)
  have "dict_update d (p # ps) = dict_update (AList.update k v d) ps"
    by (simp add: dict_update_def p)
  then show ?case using Cons by (simp add: distinct_update)
qed

lemma has_node_attrs: "has_node G n \<longleftrightarrow> node_attrs G n \<noteq> None"
  by (simp add: has_node_def node_attrs_def)

lemma edge_row_cases:
  obtains (bad_start) e where "cell row sc = Inl e" "edge_row tn sc ec row G = (G, Some e)"
  | (bad_end) u e where "cell row sc = Inr u" "cell row ec = Inl e"
      "edge_row tn sc ec row G = (G, Some e)"
  | (clash) u v where "cell row sc = Inr u" "cell row ec = Inr v"
      "kw_clash [''self'', ''u_of_edge'', ''v_of_edge'', ''type''] row"
      "edge_row tn sc ec row G = (inferred v (inferred u G), Some TypeError)"
  | (ok) u v where "cell row sc = Inr u" "cell row ec = Inr v"
      "\<not> kw_clash [''self'', ''u_of_edge'', ''v_of_edge'', ''type''] row"
      "edge_row tn sc ec row G =
         (add_edge u v ((''type'', VStr tn) # row) (inferred v (inferred u G)), None)"
  by (cases "cell row sc"; cases "cell row ec";
      cases "kw_clash [''self'', ''u_of_edge'', ''v_of_edge'', ''type''] row")
     (auto simp: edge_row_def Let_def)


lemma has_node_inferred2: "has_node (inferred v (inferred u G)) m \<longleftrightarrow> m = u \<or> m = v \<or> has_node G m"
  by (auto simp: has_node_inferred)

lemma edge_row_has_node:
  "has_node G n \<Longrightarrow> has_node (fst (edge_row tn sc ec row G)) n"
  by (rule edge_row_cases [of row sc tn ec G]) (auto simp: has_node_inferred has_node_add_edge)

lemma edge_row_node_attrs:
  assumes "has_node G n"
  shows "node_attrs (fst (edge_row tn sc ec row G)) n = node_attrs G n"
proof (rule edge_row_cases [of row sc tn ec G])
  fix u v
  assume "edge_row tn sc ec row G = (inferred v (inferred u G), Some TypeError)"
  then show ?thesis
    using assms by (simp add: node_attrs_inferred_old has_node_inferred)
next
  fix u v
  assume "edge_row tn sc ec row G =
    (add_edge u v ((''type'', VStr tn) # row) (inferred v (inferred u G)), None)"
  then show ?thesis
    using assms
    by (simp add: node_attrs_add_edge has_node_inferred node_attrs_inferred_old)
qed simp_all


lemma edge_rows_node_attrs:
  "has_node G n \<Longrightarrow> node_attrs (fst (edge_rows tn sc ec rs G)) n = node_attrs G n"
proof (induction rs arbitrary: G)
  case Nil
  show ?case by simp
next
  case (Cons row rs)
  obtain G' err where r: "edge_row tn sc ec row G = (G', err)" by (cases "edge_row tn sc ec row G")
  have a: "node_attrs G' n = node_attrs G n" and h: "has_node G' n"
    using edge_row_node_attrs [OF Cons.prems, of tn sc ec row]
      edge_row_has_node [OF Cons.prems, of tn sc ec row] r by simp_all
  show ?case
  proof (cases err)
    case None
    then show ?thesis using r a Cons.IH [OF h] by simp
  next
    case (Some e)
    then show ?thesis using r a by simp
  qed
qed

lemma edge_rows_has_node:
  "has_node G n \<Longrightarrow> has_node (fst (edge_rows tn sc ec rs G)) n"
  using edge_rows_node_attrs [of G n tn sc ec rs] by (simp add: has_node_attrs)

lemma edge_file_node_attrs:
  "has_node G n \<Longrightarrow> node_attrs (edge_file to_str f G) n = node_attrs G n"
  by (auto simp: edge_file_def edge_rows_node_attrs split: option.splits role.splits)

lemma edge_file_has_node: "has_node G n \<Longrightarrow> has_node (edge_file to_str f G) n"
  using edge_file_node_attrs [of G n to_str f] by (simp add: has_node_attrs)

lemma pass2_node_attrs:
  "has_node G n \<Longrightarrow> node_attrs (pass2 to_str files G) n = node_attrs G n"
  unfolding pass2_def
proof (induction files arbitrary: G)
  case Nil
  show ?case by simp
next
  case (Cons f fs)
  show ?case
    using Cons.IH [OF edge_file_has_node [OF Cons.prems, of to_str f]]
      edge_file_node_attrs [OF Cons.prems, of to_str f] by simp
qed

lemma pass2_has_node: "has_node G n \<Longrightarrow> has_node (pass2 to_str files G) n"
  using pass2_node_attrs [of G n to_str files] by (simp add: has_node_attrs)

text \<open>
  C10. A row of an edge file leaves the attributes of every node that is already in the
  graph as they are, whether the call of \<open>add_edge\<close> succeeds or raises; so does the whole
  of pass 2, and a node that pass 1 declared has in the built graph exactly the attributes
  (the \<open>node_type\<close> among them) that pass 1 gave it.
\<close>

theorem edge_pass_keeps_nodes:
  "(has_node G n \<longrightarrow> node_attrs (fst (edge_row tn sc ec row G)) n = node_attrs G n)
   \<and> (has_node G n \<longrightarrow> node_attrs (pass2 to_str files G) n = node_attrs G n)
   \<and> (has_node (pass1 to_str files []) n \<longrightarrow>
        node_attrs (build_graph to_str (Some files)) n = node_attrs (pass1 to_str files []) n)"
proof -
  have "node_attrs (build_graph to_str (Some files)) n = node_attrs (pass1 to_str files []) n"
    if "has_node (pass1 to_str files []) n"
  proof (cases "files = []")
    case True
    then show ?thesis by (simp add: build_graph_def pass1_def)
  next
    case False
    then show ?thesis using that by (simp add: build_graph_def pass2_node_attrs)
  qed
  then show ?thesis
    by (simp add: edge_row_node_attrs pass2_node_attrs)
qed

theorem edge_pass_keeps_nodes_witness:
  "has_node (pass1 ex_str [ex_neurons, ex_edges_A] []) ''2''
   \<and> node_attrs (build_graph ex_str (Some [ex_neurons, ex_edges_A])) ''2''
       = Some [(''node_type'', VStr ''Neuron''), ('':ID'', VStr ''2''), (''name'', VNaN)]"
proof -
  have h: "has_node (pass1 ex_str [ex_neurons, ex_edges_A] []) ''2''" by code_simp
  have a: "node_attrs (pass1 ex_str [ex_neurons, ex_edges_A] []) ''2''
       = Some [(''node_type'', VStr ''Neuron''), ('':ID'', VStr ''2''), (''name'', VNaN)]"
    by code_simp
  show ?thesis
    using h a edge_pass_keeps_nodes [where n = "''2''" and to_str = ex_str
        and files = "[ex_neurons, ex_edges_A]"]
    by simp
qed




section \<open>Edge endpoints\<close>






























section \<open>Float comparisons\<close>






lemma round_half_even_upper: "of_int (round_half_even x) \<le> x + 1 / 2"
proof -
  have "0 \<le> x - of_int \<lfloor>x\<rfloor>" by linarith
  then show ?thesis
    by (auto simp: round_half_even_def Let_def) linarith+
qed




lemma pow2_nat: "pow2 (int n) = 2 ^ n"
  by (simp add: pow2_def)












section \<open>Mandatory properties\<close>







section \<open>The matcher terminates\<close>

lemma extend_left_bounds:
  "alo \<le> i \<Longrightarrow> extend_left a b alo blo (i, j, k) = (i', j', k') \<Longrightarrow>
   alo \<le> i' \<and> i' + k' = i + k \<and> k \<le> k'"
proof (induction a b alo blo "(i, j, k)" arbitrary: i j k rule: extend_left.induct)
  case (1 a b alo blo i j k)
  show ?case
  proof (cases "alo < i \<and> blo < j \<and> a ! (i - 1) = b ! (j - 1)")
    case True
    then have "extend_left a b alo blo (i - 1, j - 1, k + 1) = (i', j', k')"
      using "1.prems"(2) by (subst (asm) extend_left.simps) simp
    moreover have "alo \<le> i - 1" using True by linarith
    ultimately have "alo \<le> i' \<and> i' + k' = i - 1 + (k + 1) \<and> k + 1 \<le> k'"
      using "1.hyps" [OF True] by blast
    then show ?thesis using True by auto
  next
    case False
    then have "extend_left a b alo blo (i, j, k) = (i, j, k)"
      by (subst extend_left.simps) auto
    then show ?thesis using "1.prems" by simp
  qed
qed

lemma extend_right_bounds:
  "i + k \<le> ahi \<Longrightarrow> extend_right a b ahi bhi (i, j, k) = (i', j', k') \<Longrightarrow>
   i' = i \<and> i' + k' \<le> ahi \<and> k \<le> k'"
proof (induction a b ahi bhi "(i, j, k)" arbitrary: i j k rule: extend_right.induct)
  case (1 a b ahi bhi i j k)
  show ?case
  proof (cases "i + k < ahi \<and> j + k < bhi \<and> a ! (i + k) = b ! (j + k)")
    case True
    then have "extend_right a b ahi bhi (i, j, k + 1) = (i', j', k')"
      using "1.prems"(2) by (subst (asm) extend_right.simps) simp
    moreover have "i + (k + 1) \<le> ahi" using True by simp
    ultimately have "i' = i \<and> i' + k' \<le> ahi \<and> k + 1 \<le> k'"
      using "1.hyps" [OF True] by blast
    then show ?thesis by auto
  next
    case False
    then have "extend_right a b ahi bhi (i, j, k) = (i, j, k)"
      by (subst extend_right.simps) auto
    then show ?thesis using "1.prems" by simp
  qed
qed


lemma state_cases:
  obtains n i j k where "st = (n, (i, j, k))"
  by (cases st) auto

lemma inner_step_inv:
  assumes "alo \<le> i" "\<forall>(j, l)\<in>set j2len. l \<le> i - alo"
    and "\<forall>(j, l)\<in>set new. l \<le> i + 1 - alo" "alo \<le> bi" "bi + bk \<le> i + 1"
    and "inner_step j2len blo i j (new, (bi, bj, bk)) = (new', (bi', bj', bk'))"
  shows "(\<forall>(j, l)\<in>set new'. l \<le> i + 1 - alo) \<and> alo \<le> bi' \<and> bi' + bk' \<le> i + 1"
proof -
  have g: "j2len_get j2len j \<le> i - alo"
    using assms(2) by (auto simp: j2len_get_def split: option.splits dest!: map_of_SomeD)
  show ?thesis
    using assms(1,3-6) g
    by (auto simp: inner_step_def Let_def split: if_splits)
qed

lemma inner_fold_inv:
  assumes "alo \<le> i" "\<forall>(j, l)\<in>set j2len. l \<le> i - alo"
  shows "(\<forall>(j, l)\<in>set new. l \<le> i + 1 - alo) \<Longrightarrow> alo \<le> bi \<Longrightarrow> bi + bk \<le> i + 1 \<Longrightarrow>
    fold (inner_step j2len blo i) js (new, (bi, bj, bk)) = (new', (bi', bj', bk')) \<Longrightarrow>
    (\<forall>(j, l)\<in>set new'. l \<le> i + 1 - alo) \<and> alo \<le> bi' \<and> bi' + bk' \<le> i + 1"
proof (induction js arbitrary: new bi bj bk)
  case Nil
  then show ?case by simp
next
  case (Cons j js)
  obtain n1 i1 j1 k1 where s: "inner_step j2len blo i j (new, (bi, bj, bk)) = (n1, (i1, j1, k1))"
    by (rule state_cases)
  from inner_step_inv [OF assms Cons.prems(1-3) s]
  have 1: "\<forall>(j, l)\<in>set n1. l \<le> i + 1 - alo" "alo \<le> i1" "i1 + k1 \<le> i + 1" by simp_all
  show ?case
    using Cons.IH [OF 1] Cons.prems(4) s by simp
qed

lemma outer_step_inv:
  assumes "alo \<le> i" "dp_inv alo i st"
  shows "dp_inv alo (Suc i) (outer_step a b blo bhi i st)"
proof -
  obtain j2len bi bj bk where st: "st = (j2len, (bi, bj, bk))" by (rule state_cases)
  obtain n' bi' bj' bk' where
    r: "fold (inner_step j2len blo i) (takeWhile (\<lambda>j. j < bhi) (b2j b (a ! i))) ([], (bi, bj, bk))
          = (n', (bi', bj', bk'))"
    by (rule state_cases)
  have 1: "\<forall>(j, l)\<in>set j2len. l \<le> i - alo" and 2: "alo \<le> bi" and 3: "bi + bk \<le> i + 1"
    using assms(2) by (simp_all add: dp_inv_def st)
  have 0: "\<forall>(j, l)\<in>set ([] :: (nat \<times> nat) list). l \<le> i + 1 - alo" by simp
  have "(\<forall>(j, l)\<in>set n'. l \<le> i + 1 - alo) \<and> alo \<le> bi' \<and> bi' + bk' \<le> i + 1"
    by (rule inner_fold_inv [OF assms(1) 1 0 2 3 r])
  then show ?thesis by (simp add: outer_step_def st r dp_inv_def)
qed

lemma dp_fold_inv:
  "alo \<le> ahi \<Longrightarrow> dp_inv alo ahi (fold (outer_step a b blo bhi) [alo..<ahi] ([], (alo, blo, 0)))"
proof (induction ahi)
  case 0
  then show ?case by (simp add: dp_inv_def)
next
  case (Suc ahi)
  show ?case
  proof (cases "alo \<le> ahi")
    case True
    have "dp_inv alo (Suc ahi)
        (outer_step a b blo bhi ahi (fold (outer_step a b blo bhi) [alo..<ahi] ([], (alo, blo, 0))))"
      by (rule outer_step_inv [OF True Suc.IH [OF True]])
    then show ?thesis using True by simp
  next
    case False
    then have "alo = Suc ahi" using Suc.prems by simp
    then show ?thesis by (simp add: dp_inv_def)
  qed
qed

lemma find_longest_match_bounds:
  assumes "find_longest_match a b alo ahi blo bhi = (i, j, k)" "k \<noteq> 0"
  shows "alo \<le> i \<and> i + k \<le> ahi"
proof (cases "alo \<le> ahi")
  case True
  obtain j2len bi bj bk where
    f: "fold (outer_step a b blo bhi) [alo..<ahi] ([], (alo, blo, 0)) = (j2len, (bi, bj, bk))"
    by (rule state_cases)
  from dp_fold_inv [OF True, of a b blo bhi] have b0: "alo \<le> bi" "bi + bk \<le> ahi"
    by (simp_all add: f dp_inv_def)
  obtain i1 j1 k1 where l: "extend_left a b alo blo (bi, bj, bk) = (i1, j1, k1)"
    by (rule prod_cases3)
  from extend_left_bounds [OF b0(1) l] b0 have b1: "alo \<le> i1" "i1 + k1 \<le> ahi" by simp_all
  have "extend_right a b ahi bhi (i1, j1, k1) = (i, j, k)"
    using assms(1) unfolding find_longest_match_def f snd_conv l .
  from extend_right_bounds [OF b1(2) this] b1 show ?thesis by simp
next
  case False
  then have e: "[alo..<ahi] = []" and n: "\<not> alo + 0 < ahi" by simp_all
  have "extend_left a b alo blo (alo, blo, 0) = (alo, blo, 0)"
    by (subst extend_left.simps) simp
  moreover have "extend_right a b ahi bhi (alo, blo, 0) = (alo, blo, 0)"
    using n by (subst extend_right.simps) simp
  ultimately have "find_longest_match a b alo ahi blo bhi = (alo, blo, 0)"
    unfolding find_longest_match_def e by simp
  then show ?thesis using assms by simp
qed


lemma matches_in_decreases:
  assumes "(i, j, k) = find_longest_match a b alo ahi blo bhi" "k \<noteq> 0"
  shows "i - alo < ahi - alo" "ahi - (i + k) < ahi - alo"
  using find_longest_match_bounds [OF assms(1) [symmetric] assms(2)] assms(2) by linarith+

termination matches_in
  by (relation "measure (\<lambda>(a, b, alo, ahi, blo, bhi). ahi - alo)")
     (auto dest: matches_in_decreases)

declare matches_in.simps [simp del]

end
